theory Spec2Isabelle
  imports Complex_Main "HOL-Library.Word" "HOL-Library.Sublist"
begin

section \<open>JavaScript strings\<close>

text \<open>
  A JavaScript string is a sequence of UTF-16 code units; \<open>charAt\<close>, \<open>indexOf\<close>,
  \<open>substring\<close>, \<open>replace\<close> and the non-unicode regular expressions of the source all
  work on code units.
\<close>

type_synonym jschar = "16 word"
type_synonym jsstring = "jschar list"

text \<open>A literal of the source, written as an ASCII string.\<close>

definition js :: "string \<Rightarrow> jsstring" where
  "js s = map of_char s"

definition QUOTE :: jschar where "QUOTE = 0x22"
definition COMMA :: jschar where "COMMA = 0x2C"
definition COLON :: jschar where "COLON = 0x3A"
definition LBRACKET :: jschar where "LBRACKET = 0x5B"
definition BACKSLASH :: jschar where "BACKSLASH = 0x5C"
definition RBRACKET :: jschar where "RBRACKET = 0x5D"
definition LBRACE :: jschar where "LBRACE = 0x7B"
definition RBRACE :: jschar where "RBRACE = 0x7D"
definition NEWLINE :: jschar where "NEWLINE = 0x0A"

text \<open>
  The class \<open>\s\<close> of a JavaScript regular expression: the WhiteSpace and LineTerminator
  code points of ECMAScript.
\<close>

definition isWhitespace :: "jschar \<Rightarrow> bool" where
  "isWhitespace c \<longleftrightarrow>
     c \<in> {0x09, 0x0A, 0x0B, 0x0C, 0x0D, 0x20, 0xA0, 0x1680,
          0x2000, 0x2001, 0x2002, 0x2003, 0x2004, 0x2005, 0x2006, 0x2007,
          0x2008, 0x2009, 0x200A, 0x2028, 0x2029, 0x202F, 0x205F, 0x3000, 0xFEFF}"

text \<open>\<open>json.replace( /\s/gm, "" )\<close>\<close>

definition stripWhitespace :: "jsstring \<Rightarrow> jsstring" where
  "stripWhitespace s = filter (\<lambda>c. \<not> isWhitespace c) s"

fun firstIndex :: "'a \<Rightarrow> 'a list \<Rightarrow> nat option" where
  "firstIndex c [] = None"
| "firstIndex c (x # xs) = (if x = c then Some 0 else map_option Suc (firstIndex c xs))"

text \<open>
  \<open>s.indexOf( c, i )\<close> for a one-character search string: the first position at or after
  \<open>i\<close> that holds \<open>c\<close>, and \<open>-1\<close> when there is none.
\<close>

definition indexOf :: "'a list \<Rightarrow> 'a \<Rightarrow> nat \<Rightarrow> int" where
  "indexOf s c i = (case firstIndex c (drop i s) of None \<Rightarrow> - 1 | Some k \<Rightarrow> int (i + k))"

text \<open>
  \<open>s.substring( start, finish )\<close>: both arguments are clamped to \<open>0 .. s.length\<close> and
  swapped when the first is the larger one.
\<close>

definition substring :: "'a list \<Rightarrow> int \<Rightarrow> int \<Rightarrow> 'a list" where
  "substring s start finish =
     (let len = int (length s);
          intStart = min (max start 0) len;
          intEnd = min (max finish 0) len;
          lo = min intStart intEnd;
          hi = max intStart intEnd
      in take (nat (hi - lo)) (drop (nat lo) s))"

text \<open>
  \<open>s.replace( pattern, replacement )\<close> with a string pattern: only the first occurrence
  of the pattern is replaced, and a string that does not hold the pattern is returned
  as it is.
\<close>

fun replaceFirst :: "'a list \<Rightarrow> 'a list \<Rightarrow> 'a list \<Rightarrow> 'a list" where
  "replaceFirst pat rep [] = (if pat = [] then rep else [])"
| "replaceFirst pat rep (c # cs) =
     (if prefix pat (c # cs) then rep @ drop (length pat) (c # cs)
      else c # replaceFirst pat rep cs)"

text \<open>
  \<open>arrayChars.match( nonCodeCharacters ) !== null\<close> for
  \<open>nonCodeCharacters = /["[{]]/gm\<close>. The character class is closed by the first
  \<open>]\<close>, so it holds the quote, \<open>[\<close> and \<open>{\<close>; the second \<open>]\<close> is a literal
  character after the class. The expression matches one character of the class
  followed at once by \<open>]\<close>.
\<close>

fun nonCodeCharacters :: "jsstring \<Rightarrow> bool" where
  "nonCodeCharacters (a # b # cs) =
     (((a = QUOTE \<or> a = LBRACKET \<or> a = LBRACE) \<and> b = RBRACKET) \<or> nonCodeCharacters (b # cs))"
| "nonCodeCharacters cs = False"

section \<open>The scanning formatter\<close>

record scan_state =
  formattedJSON :: jsstring
  inString :: bool
  inCodeArray :: bool
  codeArrayDepth :: int
  escapeNextChar :: bool
  tabDepth :: jsstring

definition initial :: scan_state where
  "initial = \<lparr>formattedJSON = [], inString = False, inCodeArray = False,
     codeArrayDepth = 0, escapeNextChar = False, tabDepth = []\<rparr>"

text \<open>\<open>formattedJSON += x\<close>\<close>

definition emit :: "jsstring \<Rightarrow> scan_state \<Rightarrow> scan_state" where
  "emit x s = s\<lparr>formattedJSON := formattedJSON s @ x\<rparr>"

text \<open>
  The branch of \<open>{\<close> and \<open>[\<close> whose next character is not a closer: break the line,
  lengthen the indent, and scan the array for code characters.
\<close>

definition openContainer :: "jsstring \<Rightarrow> jsstring \<Rightarrow> int \<Rightarrow> nat \<Rightarrow> jschar \<Rightarrow> scan_state \<Rightarrow> scan_state" where
  "openContainer json tab codesLineLength i ch s =
     (let s1 = emit [NEWLINE] (emit [ch] s);
          s2 = s1\<lparr>tabDepth := tabDepth s1 @ tab\<rparr>;
          s3 = emit (tabDepth s2) s2
      in if codesLineLength \<noteq> 0 \<and> ch = LBRACKET then
           (let arrayEnd = indexOf json RBRACKET i;
                arrayChars = substring json (int i) arrayEnd
            in if \<not> nonCodeCharacters arrayChars then s3\<lparr>inCodeArray := True\<rparr> else s3)
         else s3)"

text \<open>The branch of the comma.\<close>

definition separator :: "jsstring \<Rightarrow> int \<Rightarrow> jschar \<Rightarrow> scan_state \<Rightarrow> scan_state" where
  "separator tab codesLineLength ch s =
     (let s1 = emit [ch] s
      in if inCodeArray s1 then
           (let s2 = s1\<lparr>codeArrayDepth := codeArrayDepth s1 + 1\<rparr>
            in if codeArrayDepth s2 = codesLineLength then
                 (emit (tabDepth s2) (emit [NEWLINE] s2))\<lparr>codeArrayDepth := 0\<rparr>
               else emit tab s2)
         else emit (tabDepth s1) (emit [NEWLINE] s1))"

text \<open>
  The branch of \<open>}\<close> and \<open>]\<close> whose previous character is not an opener: break the
  line and shorten the indent.
\<close>

definition closeContainer :: "jsstring \<Rightarrow> jschar \<Rightarrow> scan_state \<Rightarrow> scan_state" where
  "closeContainer tab ch s =
     (let s1 = emit [NEWLINE] s;
          s2 = s1\<lparr>tabDepth := replaceFirst tab [] (tabDepth s1)\<rparr>;
          s3 = emit [ch] (emit (tabDepth s2) s2)
      in if inCodeArray s3 \<and> ch = RBRACKET then s3\<lparr>inCodeArray := False\<rparr> else s3)"

text \<open>The branch taken inside a string.\<close>

definition insideString :: "jschar \<Rightarrow> scan_state \<Rightarrow> scan_state" where
  "insideString ch s =
     (if \<not> escapeNextChar s \<and> ch = BACKSLASH then emit [ch] (s\<lparr>escapeNextChar := True\<rparr>)
      else if escapeNextChar s \<and> ch = BACKSLASH then emit [ch] (s\<lparr>escapeNextChar := False\<rparr>)
      else if \<not> escapeNextChar s \<and> ch = QUOTE then emit [ch] (s\<lparr>inString := False\<rparr>)
      else emit [ch] s)"

text \<open>
  The lookahead and the lookbehind of the loop: \<open>null\<close> at the last and at the first
  character.
\<close>

definition peekAt :: "jsstring \<Rightarrow> nat \<Rightarrow> jschar option" where
  "peekAt json i = (if i + 1 < length json then Some (json ! (i + 1)) else None)"

definition recallAt :: "jsstring \<Rightarrow> nat \<Rightarrow> jschar option" where
  "recallAt json i = (if 0 < i then Some (json ! (i - 1)) else None)"

text \<open>One iteration of the loop, for a cursor \<open>i < json.length\<close>.\<close>

definition step :: "jsstring \<Rightarrow> jsstring \<Rightarrow> int \<Rightarrow> nat \<Rightarrow> scan_state \<Rightarrow> scan_state" where
  "step json tab codesLineLength i s =
     (let ch = json ! i;
          peek = peekAt json i;
          recall = recallAt json i
      in if \<not> inString s then
           (if ch = QUOTE then emit [ch] (s\<lparr>inString := True\<rparr>)
            else if ch = LBRACE \<or> ch = LBRACKET then
              (if peek = Some RBRACE \<or> peek = Some RBRACKET then emit [ch] s
               else openContainer json tab codesLineLength i ch s)
            else if ch = COMMA then separator tab codesLineLength ch s
            else if ch = COLON then emit tab (emit [ch] s)
            else if ch = RBRACE \<or> ch = RBRACKET then
              (if recall = Some LBRACE \<or> recall = Some LBRACKET then emit [ch] s
               else closeContainer tab ch s)
            else emit [ch] s)
         else insideString ch s)"

text \<open>\<open>while( i < json.length ) { ...; ++i }\<close>\<close>

function scan :: "jsstring \<Rightarrow> jsstring \<Rightarrow> int \<Rightarrow> nat \<Rightarrow> scan_state \<Rightarrow> scan_state" where
  "scan json tab codesLineLength i s =
     (if i < length json then scan json tab codesLineLength (Suc i) (step json tab codesLineLength i s)
      else s)"
  by pat_completeness auto
termination
  by (relation "measure (\<lambda>(json, tab, codesLineLength, i, s). length json - i)") auto

declare scan.simps [simp del]

text \<open>
  A message of the worker to its caller: \<open>{ result, error }\<close>, the error absent from
  a success.
\<close>

record post =
  result :: jsstring
  error :: "jsstring option"

text \<open>
  The worker from the removal of prior formatting to its last line, for arguments that
  passed the checks. The value is the list of the messages it posts.
\<close>

definition formatter :: "jsstring \<Rightarrow> jsstring \<Rightarrow> int \<Rightarrow> post list" where
  "formatter json0 tab codesLineLength =
     (let json = stripWhitespace json0;
          s = scan json tab codesLineLength 0 initial
      in [\<lparr>result = formattedJSON s, error = None\<rparr>])"

text \<open>The formatted text alone.\<close>

definition format :: "jsstring \<Rightarrow> jsstring \<Rightarrow> int \<Rightarrow> jsstring" where
  "format json0 tab codesLineLength =
     formattedJSON (scan (stripWhitespace json0) tab codesLineLength 0 initial)"

section \<open>The worker: checks of the arguments\<close>

text \<open>
  A Number, as far as the checks tell numbers apart: the finite ones by their value
  (every finite double is a rational; the two zeros are one value here, and the checks
  treat them alike), and the three that are not finite.
\<close>

datatype jsnum = NaN | PosInfinity | NegInfinity | Finite rat

text \<open>
  The values a call can hand to the worker. A function or a symbol cannot be posted
  to a worker, so no such value reaches the checks; every object is one opaque value.
\<close>

datatype jsval =
    JSUndefined
  | JSNull
  | JSBoolean bool
  | JSNumber jsnum
  | JSString jsstring
  | JSBigInt int
  | JSObject

fun typeof :: "jsval \<Rightarrow> string" where
  "typeof JSUndefined = ''undefined''"
| "typeof JSNull = ''object''"
| "typeof (JSBoolean b) = ''boolean''"
| "typeof (JSNumber n) = ''number''"
| "typeof (JSString s) = ''string''"
| "typeof (JSBigInt n) = ''bigint''"
| "typeof JSObject = ''object''"

text \<open>
  One element of the destructuring pattern \<open>[ json, tab = " ", codesLineLength = 1 ]\<close>:
  the element of the array, \<open>undefined\<close> past its end, and the default where the
  element is \<open>undefined\<close>.
\<close>

definition element :: "jsval list \<Rightarrow> nat \<Rightarrow> jsval" where
  "element data k = (if k < length data then data ! k else JSUndefined)"

definition withDefault :: "jsval \<Rightarrow> jsval \<Rightarrow> jsval" where
  "withDefault v d = (if v = JSUndefined then d else v)"

text \<open>
  \<open>parseInt( x ) === x\<close> for a Number \<open>x\<close>. \<open>parseInt\<close> reads the integer at the start
  of \<open>String( x )\<close>. That string is in decimal notation for zero and for
  \<open>1e-6 \<le> |x| < 1e21\<close>, where the integer read is \<open>x\<close> without its fraction; it is in
  exponent notation (\<open>1e+21\<close>, \<open>1.5e-7\<close>) for every other finite number, where the
  integer read is the single digit in front, which is not \<open>x\<close>; and it is \<open>NaN\<close> or
  \<open>Infinity\<close> for the others, where \<open>parseInt\<close> gives \<open>NaN\<close>, which is equal to nothing.
\<close>

fun parseInt_same :: "jsnum \<Rightarrow> bool" where
  "parseInt_same (Finite q) =
     ((q = 0 \<or> (1 / 10 ^ 6 \<le> \<bar>q\<bar> \<and> \<bar>q\<bar> < 10 ^ 21)) \<and> of_int \<lfloor>q\<rfloor> = q)"
| "parseInt_same x = False"

text \<open>\<open>x <= 0\<close> for a Number \<open>x\<close>.\<close>

fun lessEqualZero :: "jsnum \<Rightarrow> bool" where
  "lessEqualZero (Finite q) = (q \<le> 0)"
| "lessEqualZero NegInfinity = True"
| "lessEqualZero x = False"

definition header :: string where
  "header = ''Error calling formatJSON( json:string, tab:unset|string, codesLineLength:unset|(int>0) )'' @ [CHR 0x0A]"

definition typeError :: "string \<Rightarrow> post" where
  "typeError message = \<lparr>result = js (header @ message), error = Some (js ''Type Error'')\<rparr>"

definition jsonUnset :: string where
  "jsonUnset = ''json:string was of type <unset> but was expected to be of type <string>.''"

definition jsonType :: "string \<Rightarrow> string" where
  "jsonType t = ''json:string was of type <'' @ t @ ''> but was expected to be of type <string>.''"

definition tabType :: "string \<Rightarrow> string" where
  "tabType t = ''tab:unset|string was of type <'' @ t @
     ''> but was expected to be of type <unset> or of type <string>.''"

definition codesLineLengthType :: "string \<Rightarrow> string" where
  "codesLineLengthType t = ''codesLineLength:unset|(int>0) was of type <'' @ t @
     ''> but was expected to be of type <unset> or of type <(int>0)>.''"

text \<open>
  The worker's message handler, on \<open>message.data\<close>. Each branch of the checks posts
  one message and returns; the value is the list of the messages posted.
\<close>

definition workerFunction :: "jsval list \<Rightarrow> post list" where
  "workerFunction data =
     (let json = element data 0;
          tab = withDefault (element data 1) (JSString (js '' ''));
          codesLineLength = withDefault (element data 2) (JSNumber (Finite 1))
      in if length data = 0 then [typeError jsonUnset]
         else if typeof json \<noteq> ''string'' then [typeError (jsonType (typeof json))]
         else if 2 \<le> length data \<and> typeof tab \<noteq> ''string'' then
           [typeError (tabType (typeof tab))]
         else if 3 \<le> length data \<and> typeof codesLineLength \<noteq> ''number'' then
           [typeError (codesLineLengthType (typeof codesLineLength))]
         else
           (case (json, tab, codesLineLength) of
              (JSString j, JSString t, JSNumber n) \<Rightarrow>
                if 3 \<le> length data \<and> \<not> parseInt_same n then
                  [typeError (codesLineLengthType ''float'')]
                else if 3 \<le> length data \<and> parseInt_same n \<and> lessEqualZero n then
                  [typeError (codesLineLengthType ''(int<=0)'')]
                else (case n of Finite q \<Rightarrow> formatter j t \<lfloor>q\<rfloor> | _ \<Rightarrow> [])
            | _ \<Rightarrow> []))"

section \<open>The dispatcher\<close>

text \<open>How a promise was settled: \<open>finish( result )\<close> or \<open>fail( message.data )\<close>.\<close>

datatype settlement = Resolved jsstring | Rejected post

text \<open>
  The state the calls share: the one \<open>worker.onmessage\<close> slot, which holds the handler
  of one call (named here by the number of the promise whose \<open>finish\<close> and \<open>fail\<close> it
  closes over), the messages posted to the worker and not yet handled, oldest first,
  and the promises made so far, each pending (\<open>None\<close>) or settled.
\<close>

record dispatcher =
  onmessage :: "nat option"
  inbox :: "jsval list list"
  promises :: "settlement option list"

definition idle :: dispatcher where
  "idle = \<lparr>onmessage = None, inbox = [], promises = []\<rparr>"

text \<open>
  One call of \<open>useWorkerFunction( ...parameters )\<close>: a new promise, whose executor
  stores its handler in \<open>worker.onmessage\<close> and posts the parameters.
\<close>

definition useWorkerFunction :: "jsval list \<Rightarrow> dispatcher \<Rightarrow> dispatcher" where
  "useWorkerFunction parameters d =
     d\<lparr>promises := promises d @ [None],
       onmessage := Some (length (promises d)),
       inbox := inbox d @ [parameters]\<rparr>"

text \<open>
  The handler stored in \<open>worker.onmessage\<close> runs on a message of the worker:
  \<open>if( error ) fail( message.data ) else finish( result )\<close>. Settling a promise that is
  settled already changes nothing.
\<close>

definition deliver :: "dispatcher \<Rightarrow> post \<Rightarrow> dispatcher" where
  "deliver d m =
     (case onmessage d of
        None \<Rightarrow> d
      | Some k \<Rightarrow>
          if promises d ! k = None then
            d\<lparr>promises := (promises d)[k :=
                Some (if error m \<noteq> None \<and> error m \<noteq> Some [] then Rejected m
                      else Resolved (result m))]\<rparr>
          else d)"

text \<open>
  The worker handles its oldest message, and what it posts reaches the handler that
  is stored at that time.
\<close>

definition workerTurn :: "dispatcher \<Rightarrow> dispatcher" where
  "workerTurn d =
     (case inbox d of
        [] \<Rightarrow> d
      | m # rest \<Rightarrow> foldl deliver (d\<lparr>inbox := rest\<rparr>) (workerFunction m))"

section \<open>Notions of the properties\<close>

text \<open>
  An argument is supplied when the call passes it and it is not \<open>undefined\<close>; the
  destructuring defaults take the place of every other one.
\<close>

definition supplied :: "jsval list \<Rightarrow> nat \<Rightarrow> bool" where
  "supplied data k \<longleftrightarrow> k < length data \<and> data ! k \<noteq> JSUndefined"

text \<open>The text of a value that is a string.\<close>

fun stringArg :: "jsval \<Rightarrow> jsstring option" where
  "stringArg (JSString s) = Some s"
| "stringArg v = None"

text \<open>The indent token of a call: the string supplied, one space when none is.\<close>

definition tabArg :: "jsval list \<Rightarrow> jsstring option" where
  "tabArg data = (if supplied data 1 then stringArg (data ! 1) else Some (js '' ''))"

text \<open>The wrap width of a value that is a finite whole number greater than zero.\<close>

fun wholeWidth :: "jsval \<Rightarrow> int option" where
  "wholeWidth (JSNumber (Finite q)) =
     (if of_int \<lfloor>q\<rfloor> = q \<and> 0 < q then Some \<lfloor>q\<rfloor> else None)"
| "wholeWidth v = None"

text \<open>
  What the text of a failed check says of a value that is no such width: its type when
  it is not a number, \<open>(int<=0)\<close> when it is a whole number, \<open>float\<close> when it is any
  other number.
\<close>

fun widthFault :: "jsval \<Rightarrow> string" where
  "widthFault (JSNumber (Finite q)) = (if of_int \<lfloor>q\<rfloor> = q then ''(int<=0)'' else ''float'')"
| "widthFault (JSNumber x) = ''float''"
| "widthFault v = typeof v"

text \<open>Every value but a finite number of magnitude \<open>1e21\<close> or more.\<close>

fun below1e21 :: "jsval \<Rightarrow> bool" where
  "below1e21 (JSNumber (Finite q)) = (\<bar>q\<bar> < 10 ^ 21)"
| "below1e21 v = True"

text \<open>The wrap width of a call: the width supplied, 1 when none is.\<close>

definition widthArg :: "jsval list \<Rightarrow> int option" where
  "widthArg data = (if supplied data 2 then wholeWidth (data ! 2) else Some 1)"

text \<open>
  What a call posts by the words of the documentation: the text of the first check that
  fails, in the order \<open>json\<close>, \<open>tab\<close>, \<open>codesLineLength\<close>, and what the formatter posts
  when none fails.
\<close>

definition verdict :: "jsval list \<Rightarrow> post list" where
  "verdict data =
     (case stringArg (element data 0) of
        None \<Rightarrow> [typeError (if data = [] then jsonUnset else jsonType (typeof (element data 0)))]
      | Some j \<Rightarrow>
          (case tabArg data of
             None \<Rightarrow> [typeError (tabType (typeof (element data 1)))]
           | Some t \<Rightarrow>
               (case widthArg data of
                  None \<Rightarrow> [typeError (codesLineLengthType (widthFault (element data 2)))]
                | Some w \<Rightarrow> formatter j t w)))"

text \<open>The messages the checks of a call can post, one for each check.\<close>

definition messages :: "jsval list \<Rightarrow> string list" where
  "messages data =
     [jsonUnset,
      jsonType (typeof (element data 0)),
      tabType (typeof (element data 1)),
      codesLineLengthType (typeof (element data 2)),
      codesLineLengthType ''float'',
      codesLineLengthType ''(int<=0)'']"

text \<open>The state after the first \<open>k\<close> iterations of the loop.\<close>

definition stateAfter :: "jsstring \<Rightarrow> jsstring \<Rightarrow> int \<Rightarrow> nat \<Rightarrow> scan_state" where
  "stateAfter json tab codesLineLength k =
     foldl (\<lambda>s i. step json tab codesLineLength i s) initial [0..<k]"

text \<open>\<open>n\<close> copies of the indent token, one after the other.\<close>

definition copies :: "nat \<Rightarrow> jsstring \<Rightarrow> jsstring" where
  "copies n tab = concat (replicate n tab)"

text \<open>\<open>parts.join( sep )\<close>\<close>

fun joinWith :: "'a list \<Rightarrow> 'a list list \<Rightarrow> 'a list" where
  "joinWith sep [] = []"
| "joinWith sep [x] = x"
| "joinWith sep (x # y # ys) = x @ sep @ joinWith sep (y # ys)"

text \<open>
  The characters of a JSON number: digits, signs, the decimal point and the exponent
  letters. A number literal is a non-empty string of them (every JSON number is one).
\<close>

definition isNumberChar :: "jschar \<Rightarrow> bool" where
  "isNumberChar c \<longleftrightarrow> (0x30 \<le> c \<and> c \<le> 0x39) \<or> c = 0x2B \<or> c = 0x2D \<or> c = 0x2E \<or> c = 0x45 \<or> c = 0x65"

definition numberLiteral :: "jsstring \<Rightarrow> bool" where
  "numberLiteral e \<longleftrightarrow> e \<noteq> [] \<and> list_all isNumberChar e"

text \<open>The compact JSON text of an array with the elements \<open>es\<close>.\<close>

definition arrayText :: "jsstring list \<Rightarrow> jsstring" where
  "arrayText es = [LBRACKET] @ joinWith [COMMA] es @ [RBRACKET]"

text \<open>The elements of the array of the usage examples, \<open>[0,1,2,3,4,5,6,7,8,9,10,11]\<close>.\<close>

definition twelveNumbers :: "jsstring list" where
  "twelveNumbers =
     [js ''0'', js ''1'', js ''2'', js ''3'', js ''4'', js ''5'',
      js ''6'', js ''7'', js ''8'', js ''9'', js ''10'', js ''11'']"

text \<open>The elements in rows of \<open>w\<close>, the last row with what is left.\<close>

function chunks :: "nat \<Rightarrow> 'a list \<Rightarrow> 'a list list" where
  "chunks w xs = (if w = 0 \<or> xs = [] then [] else take w xs # chunks w (drop w xs))"
  by pat_completeness auto
termination
  by (relation "measure (\<lambda>(w, xs). length xs)") auto

declare chunks.simps [simp del]

text \<open>
  The state of the loop inside a code array that was opened at the top level: outside
  of a string, the counter at \<open>c\<close>, the ledger at one \<open>tab\<close>, the text \<open>out\<close> written.
\<close>

definition inArray :: "jsstring \<Rightarrow> nat \<Rightarrow> jsstring \<Rightarrow> scan_state" where
  "inArray tab c out =
     \<lparr>formattedJSON = out, inString = False, inCodeArray = True, codeArrayDepth = int c,
      escapeNextChar = False, tabDepth = tab\<rparr>"

text \<open>
  What the loop writes for elements that each follow a comma, from the counter \<open>c\<close>:
  the comma, then a line break and the ledger when the counter reaches the width, one
  \<open>tab\<close> when it does not, then the element.
\<close>

fun restLayout :: "jsstring \<Rightarrow> nat \<Rightarrow> nat \<Rightarrow> jsstring list \<Rightarrow> jsstring" where
  "restLayout tab w c [] = []"
| "restLayout tab w c (e # es) =
     (if Suc c = w then [COMMA, NEWLINE] @ tab @ e @ restLayout tab w 0 es
      else [COMMA] @ tab @ e @ restLayout tab w (Suc c) es)"

text \<open>The number of line breaks of a text.\<close>

definition lineBreaks :: "jsstring \<Rightarrow> nat" where
  "lineBreaks s = length (filter (\<lambda>c. c = NEWLINE) s)"

text \<open>
  An array laid out in rows: the bracket on a line of its own, then one line per row,
  each row indented by one \<open>tab\<close>, its elements separated by a comma and one \<open>tab\<close>, the
  rows themselves by a comma at the end of the line, and the closing bracket on a line
  of its own.
\<close>

definition rowLayout :: "jsstring \<Rightarrow> jsstring list list \<Rightarrow> jsstring" where
  "rowLayout tab rows =
     [LBRACKET, NEWLINE] @
     joinWith [COMMA, NEWLINE] (map (\<lambda>row. tab @ joinWith (COMMA # tab) row) rows) @
     [NEWLINE, RBRACKET]"

section \<open>The loop as an iteration over the cursor\<close>

lemma scan_foldl:
  "scan json tab n i s = foldl (\<lambda>s i. step json tab n i s) s [i..<length json]"
proof (induction json tab n i s rule: scan.induct)
  case (1 json tab n i s)
  show ?case
  proof (cases "i < length json")
    case True
    then have "[i..<length json] = i # [Suc i..<length json]"
      by (simp add: upt_conv_Cons)
    with True "1.IH" show ?thesis
      by (subst scan.simps) simp
  next
    case False
    then show ?thesis by (subst scan.simps) simp
  qed
qed

lemma scan_stateAfter:
  "scan json tab n 0 initial = stateAfter json tab n (length json)"
  by (simp add: scan_foldl stateAfter_def)

lemma stateAfter_Suc:
  "stateAfter json tab n (Suc k) = step json tab n k (stateAfter json tab n k)"
  by (simp add: stateAfter_def)

lemma stateAfter_0: "stateAfter json tab n 0 = initial"
  by (simp add: stateAfter_def)

lemma format_stateAfter:
  "format json tab n =
     formattedJSON (stateAfter (stripWhitespace json) tab n (length (stripWhitespace json)))"
  by (simp add: format_def scan_stateAfter)

section \<open>Termination and the one success message\<close>


text \<open>
  C10. The empty string is a string, so it passes the checks with or without an indent
  token and a wrap width; the loop has nothing to scan, and the one message posted is a
  success with the empty text, which resolves the promise of the call.
\<close>

theorem empty_json_resolves_empty:
  "workerFunction [JSString []] = [\<lparr>result = [], error = None\<rparr>]
   \<and> workerFunction [JSString [], JSString tab] = [\<lparr>result = [], error = None\<rparr>]
   \<and> workerFunction [JSString [], JSString tab, JSNumber (Finite 1)] = [\<lparr>result = [], error = None\<rparr>]
   \<and> stateAfter (stripWhitespace []) tab n (length (stripWhitespace [])) = initial
   \<and> promises (workerTurn (useWorkerFunction [JSString []] idle)) = [Some (Resolved [])]"
  by (simp add: workerFunction_def element_def withDefault_def formatter_def stripWhitespace_def
      initial_def workerTurn_def useWorkerFunction_def idle_def deliver_def scan.simps
      stateAfter_def)

section \<open>The indent ledger\<close>

lemmas char_defs = QUOTE_def COMMA_def COLON_def LBRACKET_def BACKSLASH_def RBRACKET_def
  LBRACE_def RBRACE_def NEWLINE_def

lemma replaceFirst_prefix:
  "prefix pat s \<Longrightarrow> replaceFirst pat rep s = rep @ drop (length pat) s"
  by (cases s) auto

lemma copies_Suc: "copies (Suc m) tab = tab @ copies m tab"
  by (simp add: copies_def)

lemma copies_snoc: "copies m tab @ tab = copies (Suc m) tab"
  by (induction m) (simp_all add: copies_def)

lemma replaceFirst_copies_Suc:
  "replaceFirst tab [] (copies (Suc m) tab) = copies m tab"
  by (simp add: replaceFirst_prefix copies_Suc)

lemma tabDepth_emit [simp]: "tabDepth (emit x s) = tabDepth s"
  by (simp add: emit_def)

lemma formattedJSON_emit [simp]: "formattedJSON (emit x s) = formattedJSON s @ x"
  by (simp add: emit_def)

lemma tabDepth_openContainer:
  "tabDepth (openContainer json tab n i ch s) = tabDepth s @ tab"
  by (simp add: openContainer_def Let_def)

lemma tabDepth_separator: "tabDepth (separator tab n ch s) = tabDepth s"
  by (simp add: separator_def Let_def)

lemma tabDepth_closeContainer:
  "tabDepth (closeContainer tab ch s) = replaceFirst tab [] (tabDepth s)"
  by (simp add: closeContainer_def Let_def)

lemma tabDepth_insideString: "tabDepth (insideString ch s) = tabDepth s"
  by (simp add: insideString_def)

lemma tabDepth_step:
  "tabDepth (step json tab n i s) = tabDepth s @ tab
   \<or> tabDepth (step json tab n i s) = replaceFirst tab [] (tabDepth s)
   \<or> tabDepth (step json tab n i s) = tabDepth s"
  by (simp add: step_def tabDepth_openContainer tabDepth_closeContainer tabDepth_separator
      tabDepth_insideString Let_def)

lemma replaceFirst_copies: "\<exists>m'. replaceFirst tab [] (copies m tab) = copies m' tab"
proof (cases m)
  case 0
  then show ?thesis by (auto simp: copies_def intro: exI [of _ 0])
next
  case (Suc m')
  then show ?thesis by (auto simp: replaceFirst_copies_Suc)
qed

lemma ledger_invariant:
  "\<exists>m. tabDepth (stateAfter json tab n k) = copies m tab"
proof (induction k)
  case 0
  show ?case by (simp add: stateAfter_0 initial_def copies_def exI [of _ 0])
next
  case (Suc k)
  then obtain m where m: "tabDepth (stateAfter json tab n k) = copies m tab" by blast
  let ?s = "stateAfter json tab n k"
  from tabDepth_step [of json tab n k ?s]
  consider "tabDepth (step json tab n k ?s) = tabDepth ?s @ tab"
    | "tabDepth (step json tab n k ?s) = replaceFirst tab [] (tabDepth ?s)"
    | "tabDepth (step json tab n k ?s) = tabDepth ?s" by blast
  then show ?case
  proof cases
    case 1
    with m show ?thesis by (auto simp: stateAfter_Suc copies_snoc)
  next
    case 2
    with m replaceFirst_copies [of tab m] show ?thesis by (auto simp: stateAfter_Suc)
  next
    case 3
    with m show ?thesis by (auto simp: stateAfter_Suc)
  qed
qed

text \<open>
  After every iteration of the loop, whatever the input, the indent token and the wrap
  width are, the indent ledger is a whole number of copies of \<open>tab\<close>: an iteration
  leaves the ledger as it is, appends one \<open>tab\<close> to it, or replaces the first \<open>tab\<close>
  in it by the empty text, and the first \<open>tab\<close> in a ledger of copies is its first
  copy.
\<close>

theorem indent_ledger_always_whole_copies:
  "\<exists>m. tabDepth (stateAfter (stripWhitespace json) tab n k) = copies m tab"
  by (rule ledger_invariant)

section \<open>Formatting what was formatted before\<close>

lemma stripWhitespace_append [simp]:
  "stripWhitespace (a @ b) = stripWhitespace a @ stripWhitespace b"
  by (simp add: stripWhitespace_def)

lemma stripWhitespace_Nil [simp]: "stripWhitespace [] = []"
  by (simp add: stripWhitespace_def)

lemma stripWhitespace_Cons [simp]:
  "stripWhitespace (c # cs) = (if isWhitespace c then stripWhitespace cs else c # stripWhitespace cs)"
  by (simp add: stripWhitespace_def)

lemma isWhitespace_NEWLINE [simp]: "isWhitespace NEWLINE"
  by (simp add: isWhitespace_def NEWLINE_def)

lemma stripWhitespace_idem [simp]: "stripWhitespace (stripWhitespace s) = stripWhitespace s"
  by (simp add: stripWhitespace_def)

lemma stripWhitespace_empty_iff: "stripWhitespace s = [] \<longleftrightarrow> (\<forall>c\<in>set s. isWhitespace c)"
  by (auto simp: stripWhitespace_def filter_empty_conv)

lemma set_replaceFirst: "set (replaceFirst pat [] s) \<subseteq> set s"
  by (induction s) (auto dest: in_set_dropD)

lemma stripWhitespace_replaceFirst:
  "stripWhitespace s = [] \<Longrightarrow> stripWhitespace (replaceFirst pat [] s) = []"
  using set_replaceFirst [of pat s] by (auto simp: stripWhitespace_empty_iff)

lemma openContainer_strip:
  assumes "stripWhitespace tab = []" "stripWhitespace (tabDepth s) = []"
  shows "stripWhitespace (formattedJSON (openContainer json tab n i ch s)) =
           stripWhitespace (formattedJSON s) @ stripWhitespace [ch]"
    and "stripWhitespace (tabDepth (openContainer json tab n i ch s)) = []"
  using assms by (simp_all add: openContainer_def Let_def)

lemma separator_strip:
  assumes "stripWhitespace tab = []" "stripWhitespace (tabDepth s) = []"
  shows "stripWhitespace (formattedJSON (separator tab n ch s)) =
           stripWhitespace (formattedJSON s) @ stripWhitespace [ch]"
    and "stripWhitespace (tabDepth (separator tab n ch s)) = []"
  using assms by (simp_all add: separator_def Let_def)

lemma closeContainer_strip:
  assumes "stripWhitespace tab = []" "stripWhitespace (tabDepth s) = []"
  shows "stripWhitespace (formattedJSON (closeContainer tab ch s)) =
           stripWhitespace (formattedJSON s) @ stripWhitespace [ch]"
    and "stripWhitespace (tabDepth (closeContainer tab ch s)) = []"
  using assms by (simp_all add: closeContainer_def Let_def stripWhitespace_replaceFirst)

lemma insideString_strip:
  "stripWhitespace (formattedJSON (insideString ch s)) =
           stripWhitespace (formattedJSON s) @ stripWhitespace [ch]"
  by (simp add: insideString_def)

lemma step_strip:
  assumes "stripWhitespace tab = []" "stripWhitespace (tabDepth s) = []"
  shows "stripWhitespace (formattedJSON (step json tab n i s)) =
           stripWhitespace (formattedJSON s) @ stripWhitespace [json ! i]"
    and "stripWhitespace (tabDepth (step json tab n i s)) = []"
  using assms
  by (simp_all add: step_def Let_def openContainer_strip separator_strip closeContainer_strip
      insideString_strip tabDepth_insideString)

lemma stateAfter_strip:
  assumes "stripWhitespace tab = []" "k \<le> length json"
  shows "stripWhitespace (formattedJSON (stateAfter json tab n k)) = stripWhitespace (take k json)
       \<and> stripWhitespace (tabDepth (stateAfter json tab n k)) = []"
  using assms(2)
proof (induction k)
  case 0
  show ?case by (simp add: stateAfter_0 initial_def)
next
  case (Suc k)
  then have "k < length json" by simp
  then have "take (Suc k) json = take k json @ [json ! k]"
    by (simp add: take_Suc_conv_app_nth)
  with Suc assms(1) show ?case
    by (simp add: stateAfter_Suc step_strip)
qed

lemma format_strip:
  assumes "stripWhitespace tab = []"
  shows "stripWhitespace (format x tab n) = stripWhitespace x"
  using stateAfter_strip [OF assms, of "length (stripWhitespace x)" "stripWhitespace x" n]
  by (simp add: format_stateAfter)

text \<open>
  C4, as amended. When the indent token holds whitespace characters only (the characters
  that the removal of prior formatting strips), formatting the formatted text again with
  the same parameters gives the same text, for every input and every wrap width.
\<close>

theorem reformat_with_whitespace_tab:
  assumes "\<forall>c\<in>set tab. isWhitespace c"
  shows "format (format x tab n) tab n = format x tab n"
proof -
  from assms have "stripWhitespace tab = []" by (simp add: stripWhitespace_empty_iff)
  then have "stripWhitespace (format x tab n) = stripWhitespace x" by (rule format_strip)
  then show ?thesis by (simp add: format_def)
qed

text \<open>The witness: the object of the usage examples, with the default indent of one space.\<close>

theorem reformat_with_whitespace_tab_witness:
  "format (format (js ''{\"a\":1}'') (js '' '') 1) (js '' '') 1 = format (js ''{\"a\":1}'') (js '' '') 1"
  using reformat_with_whitespace_tab [of "js '' ''" "js ''{\"a\":1}''" 1]
  by (simp add: js_def isWhitespace_def)

text \<open>
  The claim as it was stated fails for an indent token that is not whitespace: the
  indent \<open>x\<close> written into the text of \<open>[1]\<close> is not stripped by the second call, which
  takes it for part of the element and indents it once more.
\<close>

theorem reformat_with_letter_tab_differs:
  "format (format (js ''[1]'') (js ''x'') 1) (js ''x'') 1 \<noteq> format (js ''[1]'') (js ''x'') 1"
  by code_simp

section \<open>The checks of the arguments\<close>

lemma parseInt_same_below:
  assumes "\<bar>q\<bar> < 10 ^ 21"
  shows "parseInt_same (Finite q) \<longleftrightarrow> of_int \<lfloor>q\<rfloor> = q"
proof -
  have "1 / 10 ^ 6 \<le> \<bar>q\<bar>" if "of_int \<lfloor>q\<rfloor> = q" "q \<noteq> 0"
  proof -
    from that(1) obtain k where k: "q = of_int k" by (metis)
    with that(2) have "k \<noteq> 0" by auto
    then have "1 \<le> \<bar>k\<bar>" by simp
    then have "(1::rat) \<le> of_int \<bar>k\<bar>" by (simp only: of_int_1_le_iff)
    with k have "1 \<le> \<bar>q\<bar>" by simp
    moreover have "(1::rat) / 10 ^ 6 \<le> 1" by simp
    ultimately show ?thesis by linarith
  qed
  with assms show ?thesis by auto
qed

lemma width_outcomes:
  assumes "below1e21 (JSNumber x)"
  shows "(\<not> parseInt_same x \<and> wholeWidth (JSNumber x) = None \<and> widthFault (JSNumber x) = ''float'')
       \<or> (parseInt_same x \<and> lessEqualZero x \<and> wholeWidth (JSNumber x) = None
            \<and> widthFault (JSNumber x) = ''(int<=0)'')
       \<or> (parseInt_same x \<and> \<not> lessEqualZero x
            \<and> (\<exists>q. x = Finite q \<and> wholeWidth (JSNumber x) = Some \<lfloor>q\<rfloor>))"
proof (cases x)
  case (Finite q)
  with assms have b: "\<bar>q\<bar> < 10 ^ 21" by simp
  show ?thesis
  proof (cases "of_int \<lfloor>q\<rfloor> = q")
    case True
    then show ?thesis using Finite parseInt_same_below [OF b]
      by (cases "q \<le> 0") (simp_all del: parseInt_same.simps add: not_le)
  next
    case False
    then show ?thesis using Finite parseInt_same_below [OF b]
      by (simp del: parseInt_same.simps)
  qed
qed simp_all

lemmas check_defs = workerFunction_def verdict_def element_def withDefault_def supplied_def
  tabArg_def widthArg_def

lemma verdict_Nil: "workerFunction [] = verdict []"
  by (simp add: check_defs)

lemma verdict1: "workerFunction [a] = verdict [a]"
  by (cases a) (simp_all add: check_defs)

lemma verdict2: "workerFunction [a, b] = verdict [a, b]"
  by (cases a; cases b) (simp_all add: check_defs)

lemma verdict3_number:
  assumes "below1e21 (JSNumber x)"
  shows "workerFunction (a # b # JSNumber x # r) = verdict (a # b # JSNumber x # r)"
  using width_outcomes [OF assms]
proof (elim disjE conjE exE)
  assume "\<not> parseInt_same x" "wholeWidth (JSNumber x) = None"
    "widthFault (JSNumber x) = ''float''"
  then show ?thesis
    by (cases a; cases b)
      (simp_all add: check_defs
        del: parseInt_same.simps lessEqualZero.simps wholeWidth.simps widthFault.simps)
next
  assume "parseInt_same x" "lessEqualZero x" "wholeWidth (JSNumber x) = None"
    "widthFault (JSNumber x) = ''(int<=0)''"
  then show ?thesis
    by (cases a; cases b)
      (simp_all add: check_defs
        del: parseInt_same.simps lessEqualZero.simps wholeWidth.simps widthFault.simps)
next
  fix q
  assume "parseInt_same x" "\<not> lessEqualZero x" "x = Finite q"
    "wholeWidth (JSNumber x) = Some \<lfloor>q\<rfloor>"
  then show ?thesis
    by (cases a; cases b)
      (simp_all add: check_defs
        del: parseInt_same.simps lessEqualZero.simps wholeWidth.simps widthFault.simps)
qed

lemma verdict3_other:
  assumes "\<forall>x. c \<noteq> JSNumber x"
  shows "workerFunction (a # b # c # r) = verdict (a # b # c # r)"
  using assms by (cases a; cases b; cases c) (simp_all add: check_defs)

lemma worker_verdict:
  assumes "below1e21 (element data 2)"
  shows "workerFunction data = verdict data"
proof -
  consider "data = []" | a where "data = [a]" | a b where "data = [a, b]"
    | a b c r where "data = a # b # c # r"
    by (cases data rule: list.exhaust [case_product list.exhaust])
      (metis list.exhaust)+
  then show ?thesis
  proof cases
    case 1
    then show ?thesis by (simp only: verdict_Nil)
  next
    case 2
    then show ?thesis by (simp only: verdict1)
  next
    case 3
    then show ?thesis by (simp only: verdict2)
  next
    case 4
    show ?thesis
    proof (cases "\<exists>x. c = JSNumber x")
      case True
      then obtain x where x: "c = JSNumber x" by blast
      with assms 4 have "below1e21 (JSNumber x)" by (simp add: element_def)
      then show ?thesis unfolding 4 x by (rule verdict3_number)
    next
      case False
      then show ?thesis unfolding 4 by (intro verdict3_other) simp
    qed
  qed
qed

lemma unat_of_char: "unat (of_char c :: 16 word) = of_char c"
proof -
  have "of_char c = (of_nat (of_char c) :: 16 word)" by (simp add: of_nat_of_char)
  moreover have "(of_char c :: nat) < 2 ^ LENGTH(16)"
  proof -
    have "(of_char c :: nat) < 256"
      using mod_less_divisor [of 256 "of_char c :: nat"] by simp
    also have "(256::nat) < 2 ^ LENGTH(16)" by simp
    finally show ?thesis .
  qed
  ultimately show ?thesis by (metis of_nat_inverse)
qed

lemma js_eq_iff: "js a = js b \<longleftrightarrow> a = b"
proof
  assume "js a = js b"
  then have "map unat (js a) = map unat (js b)" by simp
  then have "map (of_char :: char \<Rightarrow> nat) a = map of_char b"
    by (simp add: js_def unat_of_char o_def)
  then show "a = b" using inj_of_char [where ?'a = nat] by (simp add: inj_map_eq_map)
qed simp

lemma result_typeError_eq_iff:
  "result (typeError m1) = result (typeError m2) \<longleftrightarrow> m1 = m2"
  by (simp add: typeError_def js_eq_iff)

lemma jsonType_neq_unset: "jsonType (typeof a) \<noteq> jsonUnset"
  by (cases a) (simp_all add: jsonType_def jsonUnset_def)

lemma type_neq_float: "codesLineLengthType (typeof c) \<noteq> codesLineLengthType ''float''"
  by (cases c) (simp_all add: codesLineLengthType_def)

lemma type_neq_nonpositive: "codesLineLengthType (typeof c) \<noteq> codesLineLengthType ''(int<=0)''"
  by (cases c) (simp_all add: codesLineLengthType_def)

lemma distinct_messages: "distinct (messages data)"
  using jsonType_neq_unset [of "element data 0"] type_neq_float [of "element data 2"]
    type_neq_nonpositive [of "element data 2"]
  by (auto simp: messages_def)
    (simp_all add: jsonType_def jsonUnset_def tabType_def codesLineLengthType_def)

lemma distinct_results:
  "distinct (map (\<lambda>m. result (typeError m)) (messages data))"
  by (simp add: distinct_map distinct_messages inj_on_def result_typeError_eq_iff)

lemma unset_is_one:
  "workerFunction [JSString x, JSString y] =
     workerFunction [JSString x, JSString y, JSNumber (Finite 1)]"
  by (simp add: workerFunction_def element_def withDefault_def)

text \<open>
  Take a call whose wrap width is not a finite number of magnitude \<open>1e21\<close> or more. The
  worker posts one message. When \<open>json\<close> is absent it is the text for an unset \<open>json\<close>,
  and when \<open>json\<close> is not a string the text for \<open>json\<close> with its type. Else, when
  \<open>tab\<close> is supplied and not a string, it is the text for \<open>tab\<close> with its type. Else,
  when \<open>codesLineLength\<close> is supplied and is not a finite whole number greater than
  zero, it is the text for \<open>codesLineLength\<close> with its type when it is not a number,
  with \<open>(int<=0)\<close> when it is a whole number, and with \<open>float\<close> when it is any other
  number. Else it is what the formatter posts for the string, the indent token (one
  space when none is supplied) and the wrap width (1 when none is supplied). Each text
  of a check comes with the kind \<open>Type Error\<close>, the six texts are pairwise distinct,
  and a call without a wrap width posts what the call with the width 1 posts.
\<close>

theorem checks_post_the_text_of_the_failed_check:
  assumes "below1e21 (element data 2)"
  shows "workerFunction data = verdict data
   \<and> error (typeError message) = Some (js ''Type Error'')
   \<and> distinct (map (\<lambda>m. result (typeError m)) (messages data))
   \<and> workerFunction [JSString x, JSString y] =
       workerFunction [JSString x, JSString y, JSNumber (Finite 1)]"
proof -
  have "error (typeError message) = Some (js ''Type Error'')"
    by (simp add: typeError_def)
  with worker_verdict [OF assms] distinct_results [of data] unset_is_one [of x y]
  show ?thesis by (simp only:)
qed

text \<open>
  The witness: a call with \<open>null\<close> for the indent token is answered with the text for
  \<open>tab\<close> and the type \<open>object\<close>.
\<close>

theorem checks_post_the_text_of_the_failed_check_witness:
  "workerFunction [JSString (js ''[1]''), JSNull] = [typeError (tabType ''object'')]"
proof -
  have "below1e21 (element [JSString (js ''[1]''), JSNull] 2)" by (simp add: element_def)
  from checks_post_the_text_of_the_failed_check [OF this]
  show ?thesis by (simp add: verdict_def element_def tabArg_def supplied_def)
qed

text \<open>
  C6. What the checks do with every call whose wrap width is not a finite number of
  magnitude \<open>1e21\<close> or more is shown above; the claim does not hold of the code at such
  a width. The check for a whole number compares the number with \<open>parseInt\<close> of it, and
  \<open>parseInt\<close> reads the text \<open>1e+21\<close> of the number \<open>1e21\<close> as 1: the width \<open>1e21\<close>, a
  number, without a fraction and greater than zero, is rejected with the text of the
  check for a whole number.
\<close>

theorem whole_width_1e21_rejected:
  "workerFunction [JSString (js ''[1]''), JSString (js '' ''), JSNumber (Finite (10 ^ 21))]
     = [typeError (codesLineLengthType ''float'')]
   \<and> of_int \<lfloor>(10::rat) ^ 21\<rfloor> = (10::rat) ^ 21 \<and> (0::rat) < 10 ^ 21"
  by (simp add: workerFunction_def element_def withDefault_def)

section \<open>Arrays of numbers\<close>

lemma drop_eq_ConsD:
  assumes "drop i xs = c # rest"
  shows "i < length xs" "xs ! i = c" "drop (Suc i) xs = rest"
proof -
  show i: "i < length xs" using assms by (cases "i < length xs") auto
  from i have "drop i xs = xs ! i # drop (Suc i) xs" by (simp add: Cons_nth_drop_Suc)
  with assms show "xs ! i = c" "drop (Suc i) xs = rest" by simp_all
qed

lemma isNumberChar_not_structural:
  assumes "isNumberChar c"
  shows "c \<noteq> QUOTE" "c \<noteq> LBRACE" "c \<noteq> LBRACKET" "c \<noteq> COMMA" "c \<noteq> COLON"
    "c \<noteq> RBRACE" "c \<noteq> RBRACKET" "c \<noteq> NEWLINE" "\<not> isWhitespace c"
  using assms by (auto simp: isNumberChar_def char_defs isWhitespace_def)

lemma step_number_char:
  assumes "isNumberChar (json ! i)"
  shows "step json tab n i (inArray tab c out) = inArray tab c (out @ [json ! i])"
  using isNumberChar_not_structural [OF assms]
  by (simp add: step_def inArray_def emit_def Let_def)

lemma step_comma:
  assumes "json ! i = COMMA"
  shows "step json tab (int w) i (inArray tab c out) =
     (if Suc c = w then inArray tab 0 (out @ [COMMA, NEWLINE] @ tab)
      else inArray tab (Suc c) (out @ [COMMA] @ tab))"
  using assms
  by (auto simp add: step_def separator_def inArray_def emit_def Let_def char_defs)

lemma scan_number:
  assumes "drop i json = e @ post" "list_all isNumberChar e"
  shows "scan json tab n i (inArray tab c out) =
         scan json tab n (i + length e) (inArray tab c (out @ e))"
  using assms
proof (induction e arbitrary: i out)
  case Nil
  then show ?case by simp
next
  case (Cons x e)
  from Cons.prems(1) have i: "i < length json" "json ! i = x" "drop (Suc i) json = e @ post"
    using drop_eq_ConsD [of i json x "e @ post"] by simp_all
  from Cons.prems(2) have x: "isNumberChar x" and e: "list_all isNumberChar e" by simp_all
  have "scan json tab n i (inArray tab c out) =
        scan json tab n (Suc i) (inArray tab c (out @ [x]))"
    using i x by (subst scan.simps) (simp add: step_number_char)
  also have "\<dots> = scan json tab n (Suc i + length e) (inArray tab c ((out @ [x]) @ e))"
    by (rule Cons.IH [OF i(3) e])
  finally show ?case by simp
qed

lemma scan_elements:
  assumes "drop i json = concat (map ((#) COMMA) es) @ post" "list_all numberLiteral es" "c < w"
  shows "\<exists>d. scan json tab (int w) i (inArray tab c out) =
         scan json tab (int w) (i + length (concat (map ((#) COMMA) es)))
           (inArray tab d (out @ restLayout tab w c es))"
  using assms
proof (induction es arbitrary: i c out)
  case Nil
  then show ?case by auto
next
  case (Cons e es)
  let ?rest = "concat (map ((#) COMMA) es)"
  from Cons.prems(1) have "drop i json = COMMA # (e @ ?rest @ post)" by simp
  then have i: "i < length json" "json ! i = COMMA" "drop (Suc i) json = e @ (?rest @ post)"
    using drop_eq_ConsD [of i json COMMA "e @ ?rest @ post"] by simp_all
  from Cons.prems(2) have "numberLiteral e" and es: "list_all numberLiteral es"
    by simp_all
  then have e: "list_all isNumberChar e" by (simp add: numberLiteral_def)
  define c' where "c' = (if Suc c = w then 0 else Suc c)"
  define out' where "out' = (if Suc c = w then out @ [COMMA, NEWLINE] @ tab else out @ [COMMA] @ tab)"
  have c': "c' < w" using Cons.prems(3) by (auto simp: c'_def)
  have "scan json tab (int w) i (inArray tab c out) =
        scan json tab (int w) (Suc i) (inArray tab c' out')"
    using i by (subst scan.simps) (simp add: step_comma c'_def out'_def)
  also have "\<dots> = scan json tab (int w) (Suc i + length e) (inArray tab c' (out' @ e))"
    by (rule scan_number [OF i(3) e])
  finally have first: "scan json tab (int w) i (inArray tab c out) =
        scan json tab (int w) (Suc i + length e) (inArray tab c' (out' @ e))" .
  from i(3) have "drop (Suc i + length e) json = ?rest @ post"
    by (metis append_eq_conv_conj drop_drop add.commute)
  from Cons.IH [OF this es c', of "out' @ e"] obtain d where
    "scan json tab (int w) (Suc i + length e) (inArray tab c' (out' @ e)) =
     scan json tab (int w) (Suc i + length e + length ?rest)
       (inArray tab d ((out' @ e) @ restLayout tab w c' es))" by blast
  with first have "scan json tab (int w) i (inArray tab c out) =
     scan json tab (int w) (Suc i + length e + length ?rest)
       (inArray tab d ((out' @ e) @ restLayout tab w c' es))" by simp
  moreover have "(out' @ e) @ restLayout tab w c' es = out @ restLayout tab w c (e # es)"
    by (simp add: out'_def c'_def)
  moreover have "Suc i + length e + length ?rest = i + length (concat (map ((#) COMMA) (e # es)))"
    by simp
  ultimately show ?case by metis
qed

subsection \<open>The scan for code characters\<close>

lemma firstIndex_Some:
  "firstIndex c xs = Some k \<Longrightarrow> k < length xs \<and> c \<notin> set (take k xs)"
proof (induction xs arbitrary: k)
  case Nil
  then show ?case by simp
next
  case (Cons x xs)
  then show ?case by (cases k) (auto split: if_splits)
qed

lemma firstIndex_None: "firstIndex c xs = None \<longleftrightarrow> c \<notin> set xs"
  by (induction xs) auto

lemma nonCodeCharacters_needs_closer: "RBRACKET \<notin> set xs \<Longrightarrow> \<not> nonCodeCharacters xs"
  by (induction xs rule: nonCodeCharacters.induct) auto

lemma substring_to_first:
  assumes "firstIndex c (drop i s) = Some k"
  shows "substring s (int i) (indexOf s c i) = take k (drop i s)"
proof -
  from firstIndex_Some [OF assms] have "k < length s - i" by simp
  then show ?thesis using assms
    by (simp add: substring_def indexOf_def Let_def min_def max_def)
qed

lemma code_array_when_closer_follows:
  assumes "RBRACKET \<in> set (drop i json)"
  shows "\<not> nonCodeCharacters (substring json (int i) (indexOf json RBRACKET i))"
proof -
  from assms obtain k where k: "firstIndex RBRACKET (drop i json) = Some k"
    using firstIndex_None [of RBRACKET "drop i json"] by (cases "firstIndex RBRACKET (drop i json)") auto
  from firstIndex_Some [OF k] have "RBRACKET \<notin> set (take k (drop i json))" by simp
  then show ?thesis by (simp add: substring_to_first [OF k] nonCodeCharacters_needs_closer)
qed

lemma step_open_array:
  assumes "json = LBRACKET # x # rest" "isNumberChar x" "RBRACKET \<in> set rest" "n \<noteq> 0"
  shows "step json tab n 0 initial = inArray tab 0 ([LBRACKET, NEWLINE] @ tab)"
proof -
  have "RBRACKET \<in> set (drop 0 json)" using assms by simp
  from code_array_when_closer_follows [OF this]
  show ?thesis using assms isNumberChar_not_structural [OF assms(2)]
    by (simp add: step_def peekAt_def openContainer_def initial_def inArray_def emit_def
        Let_def char_defs)
qed

lemma replaceFirst_self: "replaceFirst tab [] tab = []"
  by (simp add: replaceFirst_prefix)

lemma step_close_array:
  assumes "json ! i = RBRACKET" "0 < i" "isNumberChar (json ! (i - 1))"
  shows "formattedJSON (step json tab n i (inArray tab c out)) = out @ [NEWLINE, RBRACKET]"
  using assms(1,2) isNumberChar_not_structural [OF assms(3)]
  by (simp add: step_def recallAt_def closeContainer_def inArray_def emit_def Let_def
      char_defs replaceFirst_self)

lemma scan_done: "length json \<le> i \<Longrightarrow> scan json tab n i s = s"
  by (subst scan.simps) simp

subsection \<open>Rows\<close>

lemma joinWith_Cons: "rest \<noteq> [] \<Longrightarrow> joinWith sep (x # rest) = x @ sep @ joinWith sep rest"
  by (cases rest) simp_all

lemma joinWith_snoc: "xs \<noteq> [] \<Longrightarrow> joinWith sep (xs @ [x]) = joinWith sep xs @ sep @ x"
  by (induction sep xs rule: joinWith.induct) simp_all

lemma joinWith_concat:
  "joinWith [c] (e # es) = e @ concat (map ((#) c) es)"
  by (induction es arbitrary: e) simp_all

lemma chunks_Nil [simp]: "chunks w [] = []"
  by (subst chunks.simps) simp

lemma chunks_fits: "0 < w \<Longrightarrow> xs \<noteq> [] \<Longrightarrow> length xs \<le> w \<Longrightarrow> chunks w xs = [xs]"
  by (subst chunks.simps) simp

lemma chunks_full:
  "0 < w \<Longrightarrow> length cur = w \<Longrightarrow> chunks w (cur @ rest) = cur # chunks w rest"
  by (subst chunks.simps) auto

lemma chunks_nonempty: "0 < w \<Longrightarrow> xs \<noteq> [] \<Longrightarrow> chunks w xs \<noteq> []"
  by (subst chunks.simps) simp

lemma rows_restLayout:
  assumes "0 < w" "length cur = Suc c" "c < w"
  shows "tab @ joinWith (COMMA # tab) cur @ restLayout tab w c es =
         joinWith [COMMA, NEWLINE] (map (\<lambda>row. tab @ joinWith (COMMA # tab) row) (chunks w (cur @ es)))"
  using assms(2,3)
proof (induction es arbitrary: cur c)
  case Nil
  then have "chunks w cur = [cur]" using assms(1) by (intro chunks_fits) auto
  then show ?case by simp
next
  case (Cons e es)
  show ?case
  proof (cases "Suc c = w")
    case True
    with Cons.prems have full: "chunks w (cur @ e # es) = cur # chunks w (e # es)"
      using assms(1) by (intro chunks_full) simp_all
    have ne: "map (\<lambda>row. tab @ joinWith (COMMA # tab) row) (chunks w (e # es)) \<noteq> []"
      using chunks_nonempty [OF assms(1), of "e # es"] by simp
    have "tab @ joinWith (COMMA # tab) [e] @ restLayout tab w 0 es =
       joinWith [COMMA, NEWLINE] (map (\<lambda>row. tab @ joinWith (COMMA # tab) row) (chunks w ([e] @ es)))"
      using assms(1) by (intro Cons.IH) simp_all
    then show ?thesis using True
      by (simp add: full joinWith_Cons [OF ne])
  next
    case False
    with Cons.prems have c: "Suc c < w" by simp
    from Cons.prems have cur: "cur \<noteq> []" by auto
    have "tab @ joinWith (COMMA # tab) (cur @ [e]) @ restLayout tab w (Suc c) es =
       joinWith [COMMA, NEWLINE] (map (\<lambda>row. tab @ joinWith (COMMA # tab) row) (chunks w ((cur @ [e]) @ es)))"
      using Cons.prems c by (intro Cons.IH) simp_all
    then show ?thesis using False
      by (simp add: joinWith_snoc [OF cur])
  qed
qed

lemma length_chunks: "0 < w \<Longrightarrow> length (chunks w xs) = (length xs + w - 1) div w"
proof (induction w xs rule: chunks.induct)
  case (1 w xs)
  show ?case
  proof (cases "xs = []")
    case True
    with "1.prems" show ?thesis by simp
  next
    case False
    with "1.prems" have IH: "length (chunks w (drop w xs)) = (length (drop w xs) + w - 1) div w"
      by (intro "1.IH") simp_all
    have unfold: "chunks w xs = take w xs # chunks w (drop w xs)"
      using False "1.prems" by (subst chunks.simps) simp
    show ?thesis
    proof (cases "length xs \<le> w")
      case True
      with False "1.prems" have "(length xs + w - 1) div w = 1"
        by (cases xs) (simp_all add: div_nat_eqI)
      with True show ?thesis by (simp add: unfold IH)
    next
      case False
      then have "length xs + w - 1 = (length xs - w + w - 1) + w" by simp
      then have "(length xs + w - 1) div w = Suc ((length xs - w + w - 1) div w)"
        using "1.prems" by (metis div_add_self2 less_numeral_extra(3) Suc_eq_plus1)
      then show ?thesis by (simp add: unfold IH)
    qed
  qed
qed

lemma div_round_up:
  assumes "0 < (w::nat)"
  shows "(k + w - 1) div w = (if k mod w = 0 then k div w else Suc (k div w))"
proof -
  have w: "w \<noteq> 0" using assms by simp
  have "k = k div w * w + k mod w" by simp
  then have "k + w - 1 = k div w * w + (k mod w + w - 1)" using assms by linarith
  then have "(k + w - 1) div w = (k div w * w + (k mod w + w - 1)) div w" by (simp only:)
  also have "\<dots> = k div w + (k mod w + w - 1) div w" by (rule div_mult_self3 [OF w])
  finally have split: "(k + w - 1) div w = k div w + (k mod w + w - 1) div w" .
  show ?thesis
  proof (cases "k mod w = 0")
    case True
    have "(w - 1) div w = 0" using assms by simp
    with True split show ?thesis by simp
  next
    case False
    have "k mod w < w" using assms by simp
    with False have "w * 1 \<le> k mod w + w - 1" "k mod w + w - 1 < w * Suc 1" by simp_all
    then have "(k mod w + w - 1) div w = 1" by (rule div_nat_eqI)
    with False split show ?thesis by simp
  qed
qed

lemma ceiling_as_div:
  assumes "0 < w"
  shows "\<lceil>real k / real w\<rceil> = int ((k + w - 1) div w)"
proof -
  have w: "int w \<noteq> 0" using assms by simp
  have "\<lceil>real k / real w\<rceil> = \<lceil>real_of_int (int k) / real_of_int (int w)\<rceil>" by simp
  also have "\<dots> = - (- int k div int w)" by (rule ceiling_divide_eq_div)
  also have "\<dots> = (if int k mod int w = 0 then int k div int w else int k div int w + 1)"
    by (simp only: zdiv_zminus1_eq_if [OF w]) simp
  also have "\<dots> = int (if k mod w = 0 then k div w else Suc (k div w))"
    by (simp add: zdiv_int flip: of_nat_mod)
  also have "\<dots> = int ((k + w - 1) div w)" by (simp only: div_round_up [OF assms])
  finally show ?thesis .
qed

lemma concat_chunks: "0 < w \<Longrightarrow> concat (chunks w xs) = xs"
proof (induction w xs rule: chunks.induct)
  case (1 w xs)
  show ?case
  proof (cases "xs = []")
    case True
    then show ?thesis by simp
  next
    case False
    with "1.prems" have "concat (chunks w (drop w xs)) = drop w xs" by (intro "1.IH") simp_all
    moreover have "chunks w xs = take w xs # chunks w (drop w xs)"
      using False "1.prems" by (subst chunks.simps) simp
    ultimately show ?thesis by simp
  qed
qed

lemma lineBreaks_append [simp]: "lineBreaks (a @ b) = lineBreaks a + lineBreaks b"
  by (simp add: lineBreaks_def)

lemma lineBreaks_Nil [simp]: "lineBreaks [] = 0"
  by (simp add: lineBreaks_def)

lemma lineBreaks_Cons [simp]:
  "lineBreaks (c # cs) = (if c = NEWLINE then Suc (lineBreaks cs) else lineBreaks cs)"
  by (simp add: lineBreaks_def)

lemma lineBreaks_none: "NEWLINE \<notin> set s \<Longrightarrow> lineBreaks s = 0"
  by (induction s) auto

lemma lineBreaks_number: "numberLiteral e \<Longrightarrow> lineBreaks e = 0"
  by (rule lineBreaks_none)
    (auto simp: numberLiteral_def list_all_iff dest: isNumberChar_not_structural(8))

lemma lineBreaks_joinWith_none:
  "lineBreaks sep = 0 \<Longrightarrow> \<forall>x\<in>set xs. lineBreaks x = 0 \<Longrightarrow> lineBreaks (joinWith sep xs) = 0"
  by (induction sep xs rule: joinWith.induct) simp_all

lemma lineBreaks_joinWith_rows:
  "\<forall>r\<in>set rs. lineBreaks r = 0 \<Longrightarrow> lineBreaks (joinWith [COMMA, NEWLINE] rs) = length rs - 1"
  by (induction "[COMMA, NEWLINE]" rs rule: joinWith.induct) (simp_all add: char_defs)

lemma lineBreaks_rowLayout:
  assumes "NEWLINE \<notin> set tab" "rows \<noteq> []" "\<forall>row\<in>set rows. \<forall>e\<in>set row. numberLiteral e"
  shows "lineBreaks (rowLayout tab rows) = length rows + 1"
proof -
  have tab: "lineBreaks tab = 0" using assms(1) by (rule lineBreaks_none)
  have "lineBreaks (tab @ joinWith (COMMA # tab) row) = 0" if "row \<in> set rows" for row
  proof -
    have "lineBreaks (COMMA # tab) = 0" using tab by (simp add: char_defs)
    moreover have "\<forall>e\<in>set row. lineBreaks e = 0"
      using assms(3) that by (auto intro: lineBreaks_number)
    ultimately have "lineBreaks (joinWith (COMMA # tab) row) = 0"
      by (rule lineBreaks_joinWith_none)
    with tab show ?thesis by simp
  qed
  then have "lineBreaks (joinWith [COMMA, NEWLINE]
      (map (\<lambda>row. tab @ joinWith (COMMA # tab) row) rows)) = length rows - 1"
    using lineBreaks_joinWith_rows [of "map (\<lambda>row. tab @ joinWith (COMMA # tab) row) rows"]
    by simp
  with assms(2) show ?thesis
    by (cases rows) (simp_all add: rowLayout_def char_defs)
qed

lemma last_body_number:
  "list_all numberLiteral (e # es) \<Longrightarrow> isNumberChar (last (e @ concat (map ((#) COMMA) es)))"
proof (induction es arbitrary: e)
  case Nil
  then show ?case by (auto simp: numberLiteral_def list_all_iff)
next
  case (Cons e' es)
  from Cons.prems have rest: "list_all numberLiteral (e' # es)" and "numberLiteral e'"
    by simp_all
  then have "e' \<noteq> []" by (simp add: numberLiteral_def)
  with Cons.IH [OF rest] show ?case by simp
qed

lemma nth_before_last: "body \<noteq> [] \<Longrightarrow> (a # body @ [b]) ! length body = last body"
  by (cases body rule: rev_cases) (simp_all add: nth_append)

lemma nth_closing: "(a # body @ [b]) ! Suc (length body) = b"
  by (simp add: nth_append)

lemma stripWhitespace_number: "list_all isNumberChar e \<Longrightarrow> stripWhitespace e = e"
  by (induction e) (auto dest: isNumberChar_not_structural(9))

lemma isWhitespace_structural [simp]:
  "\<not> isWhitespace LBRACKET" "\<not> isWhitespace RBRACKET" "\<not> isWhitespace COMMA"
  by (simp_all add: isWhitespace_def char_defs)

lemma stripWhitespace_elements:
  "list_all numberLiteral es \<Longrightarrow>
     stripWhitespace (concat (map ((#) COMMA) es)) = concat (map ((#) COMMA) es)"
  by (induction es) (simp_all add: numberLiteral_def stripWhitespace_number)

lemma format_empty_array: "format (arrayText []) tab n = arrayText []"
  by (simp add: format_def arrayText_def scan.simps step_def peekAt_def recallAt_def
      initial_def emit_def Let_def char_defs isWhitespace_def)

lemma format_array:
  assumes "0 < w" "list_all numberLiteral (e # es)"
  shows "format (arrayText (e # es)) tab (int w) = rowLayout tab (chunks w (e # es))"
proof -
  let ?rest = "concat (map ((#) COMMA) es)"
  let ?body = "e @ ?rest"
  let ?json = "LBRACKET # ?body @ [RBRACKET]"
  let ?out0 = "[LBRACKET, NEWLINE] @ tab"
  from assms(2) have e: "list_all isNumberChar e" "e \<noteq> []" and es: "list_all numberLiteral es"
    by (simp_all add: numberLiteral_def)
  then obtain x e' where xe: "e = x # e'" "isNumberChar x" by (cases e) auto
  have json: "arrayText (e # es) = ?json"
    by (simp add: arrayText_def joinWith_concat)
  have strip: "stripWhitespace ?json = ?json"
    using e es by (simp add: stripWhitespace_number stripWhitespace_elements)
  have n: "int w \<noteq> 0" using assms(1) by simp
  have "step ?json tab (int w) 0 initial = inArray tab 0 ?out0"
    using xe n by (intro step_open_array [where x = x and rest = "e' @ ?rest @ [RBRACKET]"]) simp_all
  then have s1: "scan ?json tab (int w) 0 initial = scan ?json tab (int w) (Suc 0) (inArray tab 0 ?out0)"
    by (subst scan.simps) simp
  have "drop (Suc 0) ?json = e @ (?rest @ [RBRACKET])" by simp
  from scan_number [OF this e(1)]
  have s2: "scan ?json tab (int w) (Suc 0) (inArray tab 0 ?out0) =
      scan ?json tab (int w) (Suc 0 + length e) (inArray tab 0 (?out0 @ e))" .
  have "drop (Suc 0 + length e) ?json = ?rest @ [RBRACKET]" by simp
  from scan_elements [OF this es assms(1)] obtain d where
    s3: "scan ?json tab (int w) (Suc 0 + length e) (inArray tab 0 (?out0 @ e)) =
      scan ?json tab (int w) (Suc 0 + length e + length ?rest)
        (inArray tab d ((?out0 @ e) @ restLayout tab w 0 es))" by blast
  let ?i = "Suc 0 + length e + length ?rest"
  have i: "?i = Suc (length ?body)" by simp
  have at: "?json ! ?i = RBRACKET"
    unfolding i by (rule nth_closing)
  have "?body \<noteq> []" using e(2) by simp
  then have "?json ! length ?body = last ?body" by (rule nth_before_last)
  moreover have "?i - 1 = length ?body" by simp
  ultimately have "?json ! (?i - 1) = last ?body" by (simp only:)
  then have before: "isNumberChar (?json ! (?i - 1))"
    using last_body_number [OF assms(2)] by (simp only:)
  have s4: "scan ?json tab (int w) ?i (inArray tab d ((?out0 @ e) @ restLayout tab w 0 es)) =
      step ?json tab (int w) ?i (inArray tab d ((?out0 @ e) @ restLayout tab w 0 es))"
    by (subst scan.simps) (simp add: scan_done)
  have "formattedJSON (scan ?json tab (int w) 0 initial) =
      ((?out0 @ e) @ restLayout tab w 0 es) @ [NEWLINE, RBRACKET]"
    unfolding s1 s2 s3 s4 using at before by (intro step_close_array) simp_all
  also have "\<dots> = [LBRACKET, NEWLINE] @ (tab @ joinWith (COMMA # tab) [e] @ restLayout tab w 0 es)
      @ [NEWLINE, RBRACKET]" by simp
  also have "\<dots> = rowLayout tab (chunks w ([e] @ es))"
    unfolding rowLayout_def using assms(1) by (subst rows_restLayout [of w "[e]" 0]) simp_all
  finally show ?thesis by (simp only: format_def json strip append_Cons append_Nil)
qed

text \<open>
  Let the input be the compact text of an array of \<open>k\<close> number literals, and let the
  wrap width be \<open>w \<ge> 1\<close>. The formatted text is the opening bracket on a line of its
  own, the elements in rows of \<open>w\<close> (the last row with what is left), one row on each
  line, and the closing bracket on a line of its own; the array without elements stays
  \<open>[]\<close>. The number of rows is \<open>\<lceil>k / w\<rceil>\<close>, and when the indent token holds no line break
  the text has exactly one line break more than it has rows: the lines between the
  line of the opening bracket and the line of the closing one are the rows. A call
  that leaves the wrap width unset posts what the call with the width 1 posts.
\<close>

theorem numeric_array_rows:
  assumes "0 < w" and "list_all numberLiteral es"
  shows "format (arrayText es) tab (int w) =
           (if es = [] then arrayText [] else rowLayout tab (chunks w es))
       \<and> int (length (chunks w es)) = \<lceil>real (length es) / real w\<rceil>
       \<and> (es \<noteq> [] \<and> NEWLINE \<notin> set tab \<longrightarrow>
            lineBreaks (format (arrayText es) tab (int w)) = length (chunks w es) + 1)
       \<and> workerFunction [JSString (arrayText es), JSString tab] =
            [\<lparr>result = format (arrayText es) tab 1, error = None\<rparr>]
       \<and> workerFunction [JSString (arrayText es), JSString tab, JSNumber (Finite 1)] =
            [\<lparr>result = format (arrayText es) tab 1, error = None\<rparr>]"
proof -
  have layout: "format (arrayText es) tab (int w) =
      (if es = [] then arrayText [] else rowLayout tab (chunks w es))"
  proof (cases es)
    case Nil
    then show ?thesis by (simp add: format_empty_array)
  next
    case (Cons e es')
    with assms show ?thesis by (simp only: format_array) simp
  qed
  have rows: "int (length (chunks w es)) = \<lceil>real (length es) / real w\<rceil>"
    using assms(1) by (simp only: length_chunks ceiling_as_div)
  have breaks: "lineBreaks (format (arrayText es) tab (int w)) = length (chunks w es) + 1"
    if "es \<noteq> []" "NEWLINE \<notin> set tab"
  proof -
    have "set (concat (chunks w es)) = set es" using assms(1) by (simp add: concat_chunks)
    then have "\<forall>row\<in>set (chunks w es). \<forall>e\<in>set row. numberLiteral e"
      using assms(2) by (auto simp: list_all_iff)
    moreover have "chunks w es \<noteq> []" using assms(1) that(1) by (rule chunks_nonempty)
    ultimately have "lineBreaks (rowLayout tab (chunks w es)) = length (chunks w es) + 1"
      using that(2) by (intro lineBreaks_rowLayout)
    with that(1) layout show ?thesis by simp
  qed
  have "workerFunction [JSString (arrayText es), JSString tab] =
      [\<lparr>result = format (arrayText es) tab 1, error = None\<rparr>]"
    "workerFunction [JSString (arrayText es), JSString tab, JSNumber (Finite 1)] =
      [\<lparr>result = format (arrayText es) tab 1, error = None\<rparr>]"
    by (simp_all add: workerFunction_def element_def withDefault_def formatter_def format_def Let_def)
  with layout rows breaks show ?thesis by blast
qed

text \<open>
  The witness: the array of the usage examples, twelve numbers with the width 4 and an
  indent of one space, comes out in three rows.
\<close>

theorem numeric_array_rows_witness:
  "format (arrayText twelveNumbers) (js '' '') (int 4) =
     rowLayout (js '' '') (chunks 4 twelveNumbers)
   \<and> rowLayout (js '' '') (chunks 4 twelveNumbers) =
     js ''[\<newline> 0, 1, 2, 3,\<newline> 4, 5, 6, 7,\<newline> 8, 9, 10, 11\<newline>]''
   \<and> length (chunks 4 twelveNumbers) = 3"
proof -
  have w: "0 < (4::nat)" by simp
  have es: "list_all numberLiteral twelveNumbers" by code_simp
  have ne: "twelveNumbers \<noteq> []" by (simp add: twelveNumbers_def)
  have "rowLayout (js '' '') (chunks 4 twelveNumbers) =
      js ''[\<newline> 0, 1, 2, 3,\<newline> 4, 5, 6, 7,\<newline> 8, 9, 10, 11\<newline>]''" by code_simp
  moreover have "length (chunks 4 twelveNumbers) = 3" by code_simp
  ultimately show ?thesis
    using numeric_array_rows [OF w es, of "js '' ''"] ne by simp
qed

section \<open>Arrays that hold more than numbers\<close>

text \<open>
  C1. The claim does not hold of the code. The scan for code characters looks at the
  text from the bracket up to the first \<open>]\<close>, and the expression it looks for needs a
  \<open>]\<close> itself, so it finds nothing whenever a \<open>]\<close> follows the bracket
  (\<open>code_array_when_closer_follows\<close>): every array that is not empty is marked as a
  code array. On \<open>["a","b"]\<close> with the width 2 and an indent of one space the flag is
  set after the first iteration, and the comma between the two strings is followed by
  one \<open>tab\<close> and no line break.
\<close>

theorem array_of_strings_marked_as_code:
  "inCodeArray (stateAfter (stripWhitespace (js ''[\"a\",\"b\"]'')) (js '' '') 2 1)
   \<and> format (js ''[\"a\",\"b\"]'') (js '' '') 2 = js ''[\<newline> \"a\", \"b\"\<newline>]''"
  by code_simp

section \<open>Strings with escapes\<close>

lemma escape_flag_only_cleared_by_backslash:
  assumes "escapeNextChar s" "ch \<noteq> BACKSLASH"
  shows "escapeNextChar (insideString ch s)" "inString (insideString ch s) = inString s"
  using assms by (simp_all add: insideString_def emit_def)

text \<open>
  C2. The claim does not hold of the code. Inside a string the escape flag is set by a
  backslash and cleared by the next backslash only: no other character clears it, and
  while it is set no quote ends the string (\<open>escape_flag_only_cleared_by_backslash\<close>).
  On \<open>["\n",1]\<close> the flag is still set after the \<open>n\<close> (four iterations), the quote that
  closes the literal leaves the loop inside the string (five iterations), and the rest
  of the input is written as it is, without the line breaks of the comma and of the
  closing bracket.
\<close>

theorem escape_flag_stays_set:
  "escapeNextChar (stateAfter (stripWhitespace (js ''[\"'' @ [BACKSLASH] @ js ''n\",1]'')) (js '' '') 1 4)
   \<and> inString (stateAfter (stripWhitespace (js ''[\"'' @ [BACKSLASH] @ js ''n\",1]'')) (js '' '') 1 5)
   \<and> format (js ''[\"'' @ [BACKSLASH] @ js ''n\",1]'') (js '' '') 1 =
       js ''[\<newline> \"'' @ [BACKSLASH] @ js ''n\",1]''"
  by code_simp

text \<open>
  C3. The claim does not hold of the code, for the reason of C2. On \<open>[["\n"],"\n"]\<close> the
  loop stays inside the string from the first literal to the end of the second one, so
  it misses the bracket that closes the inner array, and the bracket that closes the
  outer array, of depth 0, is written after one indent unit.
\<close>

theorem closer_of_outer_array_indented:
  "format (js ''[[\"'' @ [BACKSLASH] @ js ''n\"],\"'' @ [BACKSLASH] @ js ''n\"]'') (js '' '') 1 =
     js ''[\<newline> [\<newline>  \"'' @ [BACKSLASH] @ js ''n\"],\"'' @ [BACKSLASH] @ js ''n\"\<newline> ]''"
  by code_simp

text \<open>
  C7. The ledger is a whole number of copies of \<open>tab\<close> at every step, as shown above,
  but the rest of the claim does not hold of the code, for the reason of C2. In the
  well-formed \<open>["\n"]\<close> the loop is still inside the string at the bracket that closes
  the array, which is not empty: the ledger holds one \<open>tab\<close> before that bracket and
  one \<open>tab\<close> after it, and the bracket is written without a line break. In the
  well-formed \<open>["\n",[1]]\<close> the bracket that opens the inner array, which is not empty,
  is passed in the same way, and the ledger holds one \<open>tab\<close> before and after it.
\<close>

theorem brackets_after_escape_keep_ledger:
  "stripWhitespace (js ''[\"'' @ [BACKSLASH] @ js ''n\"]'') ! 5 = RBRACKET
   \<and> tabDepth (stateAfter (stripWhitespace (js ''[\"'' @ [BACKSLASH] @ js ''n\"]'')) (js '' '') 1 5) = js '' ''
   \<and> tabDepth (stateAfter (stripWhitespace (js ''[\"'' @ [BACKSLASH] @ js ''n\"]'')) (js '' '') 1 6) = js '' ''
   \<and> format (js ''[\"'' @ [BACKSLASH] @ js ''n\"]'') (js '' '') 1 = js ''[\<newline> \"'' @ [BACKSLASH] @ js ''n\"]''
   \<and> stripWhitespace (js ''[\"'' @ [BACKSLASH] @ js ''n\",[1]]'') ! 6 = LBRACKET
   \<and> tabDepth (stateAfter (stripWhitespace (js ''[\"'' @ [BACKSLASH] @ js ''n\",[1]]'')) (js '' '') 1 6) = js '' ''
   \<and> tabDepth (stateAfter (stripWhitespace (js ''[\"'' @ [BACKSLASH] @ js ''n\",[1]]'')) (js '' '') 1 7) = js '' ''"
  by code_simp

section \<open>Calls that overlap\<close>

text \<open>
  C8. The claim does not hold of the code. Every call stores its own handler in the one
  \<open>worker.onmessage\<close> slot. When a second call is made before the answer to the first
  has arrived, both answers reach the handler of the second call: its promise is
  resolved with the text of the first request, and the promise of the first call is
  never settled.
\<close>

theorem overlapping_calls_cross_settle:
  "promises (workerTurn (workerTurn
      (useWorkerFunction [JSString (js ''[2]'')]
        (useWorkerFunction [JSString (js ''[1]'')] idle)))) =
     [None, Some (Resolved (js ''[\<newline> 1\<newline>]''))]"
  by code_simp

section \<open>Arrays that follow arrays\<close>

text \<open>
  C5. The claim holds of an array that is the whole input, as shown above, and it
  does not hold of every array of numbers: the element counter is not reset when an
  array is left, so an array that follows another one starts with what that one
  counted. With the width 3, the array \<open>[3,4,5]\<close> alone is written in one row; as the
  second array of \<open>{"a":[1,2],"b":[3,4,5]}\<close> it meets the counter at 1 and is broken
  after its second element, two rows for \<open>\<lceil>3 / 3\<rceil> = 1\<close>.
\<close>

theorem counter_carried_into_next_array:
  "format (js ''[3,4,5]'') (js '' '') 3 = js ''[\<newline> 3, 4, 5\<newline>]''
   \<and> codeArrayDepth (stateAfter (stripWhitespace (js ''{\"a\":[1,2],\"b\":[3,4,5]}'')) (js '' '') 3 10) = 1
   \<and> format (js ''{\"a\":[1,2],\"b\":[3,4,5]}'') (js '' '') 3 =
       js ''{\<newline> \"a\": [\<newline>  1, 2\<newline> ],\<newline> \"b\": [\<newline>  3, 4,\<newline>  5\<newline> ]\<newline>}''"
  by code_simp

section \<open>Further properties of the scan\<close>

text \<open>
  Whatever an array holds, the iteration that opens it sets the code array flag when a
  \<open>]\<close> stands anywhere at or after the bracket and the wrap width is not zero.
\<close>

theorem open_array_sets_code_flag:
  assumes "RBRACKET \<in> set (drop i json)" and "n \<noteq> 0"
  shows "inCodeArray (openContainer json tab n i LBRACKET s)"
  using code_array_when_closer_follows [OF assms(1)] assms(2)
  by (simp add: openContainer_def Let_def emit_def)

theorem open_array_sets_code_flag_witness:
  "inCodeArray (openContainer (js ''[{\"a\":[]}]'') (js '' '') 2 0 LBRACKET initial)"
proof -
  have "RBRACKET \<in> set (drop 0 (js ''[{\"a\":[]}]''))" by code_simp
  then show ?thesis by (rule open_array_sets_code_flag) simp
qed

lemma step_plain:
  assumes "\<not> inString s" "json ! i \<notin> {QUOTE, LBRACE, LBRACKET, COMMA, COLON, RBRACE, RBRACKET}"
  shows "step json tab n i s = emit [json ! i] s"
  using assms by (simp add: step_def Let_def)

lemma stateAfter_plain:
  assumes "\<forall>c\<in>set json. c \<notin> {QUOTE, LBRACE, LBRACKET, COMMA, COLON, RBRACE, RBRACKET}"
    and "k \<le> length json"
  shows "stateAfter json tab n k = emit (take k json) initial"
  using assms(2)
proof (induction k)
  case 0
  show ?case by (simp add: stateAfter_0 emit_def)
next
  case (Suc k)
  then have k: "k < length json" by simp
  with assms(1) have plain: "json ! k \<notin> {QUOTE, LBRACE, LBRACKET, COMMA, COLON, RBRACE, RBRACKET}"
    by (metis nth_mem)
  have "\<not> inString (emit (take k json) initial)" by (simp add: emit_def initial_def)
  with Suc k plain show ?case
    by (simp add: stateAfter_Suc step_plain take_Suc_conv_app_nth emit_def)
qed

text \<open>
  A text without quotes, brackets, braces, commas and colons is written as it is, less
  its whitespace.
\<close>

theorem plain_text_unchanged:
  assumes "\<forall>c\<in>set json. c \<notin> {QUOTE, LBRACE, LBRACKET, COMMA, COLON, RBRACE, RBRACKET}"
  shows "format json tab n = stripWhitespace json"
proof -
  have "\<forall>c\<in>set (stripWhitespace json). c \<notin> {QUOTE, LBRACE, LBRACKET, COMMA, COLON, RBRACE, RBRACKET}"
    using assms by (simp add: stripWhitespace_def)
  from stateAfter_plain [OF this, of "length (stripWhitespace json)" tab n]
  show ?thesis by (simp add: format_stateAfter emit_def initial_def)
qed

theorem plain_text_unchanged_witness:
  "format (js ''tr ue'') (js '' '') 1 = js ''true''"
proof -
  have "\<forall>c\<in>set (js ''tr ue''). c \<notin> {QUOTE, LBRACE, LBRACKET, COMMA, COLON, RBRACE, RBRACKET}"
    by (simp add: js_def char_defs)
  from plain_text_unchanged [OF this, of "js '' ''" 1]
  show ?thesis by (simp add: js_def stripWhitespace_def isWhitespace_def)
qed

end
